theory Spec2Isabelle
  imports Main "HOL-Library.Product_Lexorder"
begin

section \<open>Texts and character classes\<close>

text \<open>
  A Python \<open>str\<close> is a sequence of code points and \<open>len\<close> counts them. The model uses
  \<open>string\<close> with one \<open>char\<close> per code point, so it covers the texts whose code points
  lie in 0..255; on that range the classes below are the ones Python's \<open>re\<close> module and
  \<open>str.strip\<close> use for \<open>str\<close> patterns (\<open>\s\<close> and \<open>str.isspace\<close> agree, \<open>\w\<close> is
  alphanumeric or underscore, case folding pairs A-Z and the accented capitals with
  their lower-case letters).
\<close>

definition newline :: char where
  "newline = CHR 0x0A"

definition tab :: char where
  "tab = CHR 0x09"

definition backtick :: char where
  "backtick = CHR 0x60"

definition backslash :: char where
  "backslash = CHR 0x5C"

definition is_space :: "char \<Rightarrow> bool" where
  "is_space c = (let n = (of_char c :: nat) in
     (9 \<le> n \<and> n \<le> 13) \<or> (28 \<le> n \<and> n \<le> 32) \<or> n = 133 \<or> n = 160)"

definition is_word :: "char \<Rightarrow> bool" where
  "is_word c = (let n = (of_char c :: nat) in
     (48 \<le> n \<and> n \<le> 57) \<or> (65 \<le> n \<and> n \<le> 90) \<or> n = 95 \<or> (97 \<le> n \<and> n \<le> 122)
     \<or> n = 170 \<or> n = 178 \<or> n = 179 \<or> n = 181 \<or> n = 185 \<or> n = 186
     \<or> (188 \<le> n \<and> n \<le> 190) \<or> (192 \<le> n \<and> n \<le> 214) \<or> (216 \<le> n \<and> n \<le> 246)
     \<or> (248 \<le> n \<and> n \<le> 255))"

definition lower :: "char \<Rightarrow> char" where
  "lower c = (let n = (of_char c :: nat) in
     if (65 \<le> n \<and> n \<le> 90) \<or> (192 \<le> n \<and> n \<le> 222 \<and> n \<noteq> 215)
     then char_of (n + 32) else c)"

section \<open>The regular expressions of \<open>re.sub\<close>\<close>

text \<open>
  The part of Python's \<open>re\<close> syntax that \<open>_clean_text\<close> uses: literals, \<open>.\<close>, bracket
  sets with ranges and the classes \<open>\s\<close> and \<open>\w\<close>, the anchors \<open>^\<close> and \<open>$\<close>,
  concatenation, alternation, greedy and lazy repetition, and the capturing group 1.
\<close>

datatype item = Single char | Range char char | SpaceClass | WordClass

datatype re =
    Lit char
  | Dot
  | Set "item list"
  | Bol
  | Eol
  | Eps
  | Seq re re
  | Alt re re
  | Star bool re
  | Group re

record flags =
  ignorecase :: bool
  multiline :: bool

definition no_flags :: flags where
  "no_flags = \<lparr>ignorecase = False, multiline = False\<rparr>"

definition MULTILINE :: flags where
  "MULTILINE = \<lparr>ignorecase = False, multiline = True\<rparr>"

definition IGNORECASE_MULTILINE :: flags where
  "IGNORECASE_MULTILINE = \<lparr>ignorecase = True, multiline = True\<rparr>"

fun cat :: "re list \<Rightarrow> re" where
  "cat [] = Eps"
| "cat (r # rs) = Seq r (cat rs)"

fun alts :: "re list \<Rightarrow> re" where
  "alts [] = Set []"
| "alts [r] = r"
| "alts (r # rs) = Alt r (alts rs)"

definition lits :: "string \<Rightarrow> re" where
  "lits s = cat (map Lit s)"

definition star :: "re \<Rightarrow> re" where
  "star r = Star True r"

definition plus :: "re \<Rightarrow> re" where
  "plus r = Seq r (Star True r)"

definition plus_lazy :: "re \<Rightarrow> re" where
  "plus_lazy r = Seq r (Star False r)"

definition opt :: "re \<Rightarrow> re" where
  "opt r = Alt r Eps"

fun in_item :: "char \<Rightarrow> item \<Rightarrow> bool" where
  "in_item c (Single d) = (c = d)"
| "in_item c (Range lo hi) = ((of_char lo :: nat) \<le> of_char c \<and> (of_char c :: nat) \<le> of_char hi)"
| "in_item c SpaceClass = is_space c"
| "in_item c WordClass = is_word c"

fun in_items :: "char \<Rightarrow> item list \<Rightarrow> bool" where
  "in_items c [] = False"
| "in_items c (i # its) = (in_item c i \<or> in_items c its)"

text \<open>
  A matcher state is the text before the current position (reversed, so that its head is
  the previous character), the text from the current position on, and the content of
  group 1 if it has been captured.
\<close>

type_synonym mstate = "string \<times> string \<times> string option"

fun take1 :: "(char \<Rightarrow> bool) \<Rightarrow> mstate \<Rightarrow> mstate list" where
  "take1 p (pre, [], g) = []"
| "take1 p (pre, c # cs, g) = (if p c then [(c # pre, cs, g)] else [])"

definition lit_eq :: "flags \<Rightarrow> char \<Rightarrow> char \<Rightarrow> bool" where
  "lit_eq f d c = (if ignorecase f then lower c = lower d else c = d)"

text \<open>
  \<open>matches f r st\<close> lists the states in which a match of \<open>r\<close> begun at \<open>st\<close> can end,
  in the order in which the backtracking matcher of \<open>re\<close> tries them: the first
  alternative before the second, a greedy repetition longest first, a lazy one shortest
  first. The head of the list is the match \<open>re\<close> reports. A repetition goes round again
  only after an iteration that consumed text; every repeated expression of this program
  consumes exactly one character. The flag \<open>IGNORECASE\<close> is applied to literals; the only
  sets of this program under that flag are \<open>\s\<close>, which has no case.
\<close>

fun matches :: "flags \<Rightarrow> re \<Rightarrow> mstate \<Rightarrow> mstate list" where
  "matches f (Lit d) st = take1 (lit_eq f d) st"
| "matches f Dot st = take1 (\<lambda>c. c \<noteq> newline) st"
| "matches f (Set its) st = take1 (\<lambda>c. in_items c its) st"
| "matches f Bol (pre, rest, g) =
     (if pre = [] \<or> (multiline f \<and> hd pre = newline) then [(pre, rest, g)] else [])"
| "matches f Eol (pre, rest, g) =
     (if rest = [] \<or> (if multiline f then hd rest = newline else rest = [newline])
      then [(pre, rest, g)] else [])"
| "matches f Eps st = [st]"
| "matches f (Seq r1 r2) st = concat (map (matches f r2) (matches f r1 st))"
| "matches f (Alt r1 r2) st = matches f r1 st @ matches f r2 st"
| "matches f (Star greedy r) st =
     (let more = concat (map (\<lambda>st'. if length (fst (snd st')) < length (fst (snd st))
                                        then matches f (Star greedy r) st' else [])
                             (matches f r st))
      in if greedy then more @ [st] else st # more)"
| "matches f (Group r) (pre, rest, g) =
     map (\<lambda>(pre', rest', g'). (pre', rest', Some (rev (take (length pre' - length pre) pre'))))
         (matches f r (pre, rest, g))"

text \<open>The replacement templates of the program: a fixed text, or \<open>\1\<close>.\<close>

datatype template = Text string | Group1

fun expand :: "template \<Rightarrow> string option \<Rightarrow> string" where
  "expand (Text s) g = s"
| "expand Group1 None = []"
| "expand Group1 (Some s) = s"

text \<open>
  \<open>re.sub\<close> scans the text from left to right. At each position it takes the match the
  matcher reports there, if any, writes the expanded template and goes on after the match;
  otherwise it copies one character. \<open>pre\<close> is the original text already scanned
  (reversed): anchors look at the original text, not at the output. No expression of
  this program matches the empty string (\<open>min_len\<close> below), so the branch of a match that
  consumed nothing is never taken here; it copies a character like a failed match.
\<close>

fun sub_from :: "flags \<Rightarrow> re \<Rightarrow> template \<Rightarrow> string \<Rightarrow> string \<Rightarrow> string" where
  "sub_from f r t pre rest =
     (case matches f r (pre, rest, None) of
        (pre', rest', g) # _ \<Rightarrow>
          if length rest' < length rest then expand t g @ sub_from f r t pre' rest'
          else (case rest of [] \<Rightarrow> [] | c # cs \<Rightarrow> c # sub_from f r t (c # pre) cs)
      | [] \<Rightarrow> (case rest of [] \<Rightarrow> [] | c # cs \<Rightarrow> c # sub_from f r t (c # pre) cs))"

definition re_sub :: "flags \<Rightarrow> re \<Rightarrow> template \<Rightarrow> string \<Rightarrow> string" where
  "re_sub f r t s = sub_from f r t [] s"

text \<open>\<open>str.strip()\<close>: drop the white space at both ends.\<close>

definition strip :: "string \<Rightarrow> string" where
  "strip s = rev (dropWhile is_space (rev (dropWhile is_space s)))"

section \<open>\<open>Conversation._clean_text\<close>\<close>

definition bold_re :: re where
  "bold_re = cat [Lit CHR ''*'', Lit CHR ''*'', Group (plus_lazy Dot), Lit CHR ''*'', Lit CHR ''*'']"

definition italic_re :: re where
  "italic_re = cat [Lit CHR ''*'', Group (plus_lazy Dot), Lit CHR ''*'']"

definition strike_re :: re where
  "strike_re = cat [Lit CHR ''~'', Lit CHR ''~'', Group (plus_lazy Dot), Lit CHR ''~'', Lit CHR ''~'']"

definition superscript_re :: re where
  "superscript_re = cat [Lit CHR ''^'', Group (plus_lazy Dot)]"

definition code_re :: re where
  "code_re = cat [Lit backtick, Group (plus_lazy Dot), Lit backtick]"

definition quote_re :: re where
  "quote_re = cat [Bol, lits ''&gt;'', star Dot, Eol]"

definition indented_quote_re :: re where
  "indented_quote_re = cat [Bol, star (Set [SpaceClass]), lits ''&gt;'', star Dot, Eol]"

definition url_re :: re where
  "url_re = cat [lits ''http'', opt (Set [Single CHR ''s'']), lits ''://'',
     plus (alts [
       Set [Range CHR ''a'' CHR ''z'', Range CHR ''A'' CHR ''Z''],
       Set [Range CHR ''0'' CHR ''9''],
       Set [Range CHR ''$'' CHR ''_'', Single CHR ''@'', Single CHR ''.'', Single CHR ''&'',
            Single CHR ''+''],
       Set [Single CHR ''!'', Single CHR ''*'', Single backslash, Single CHR ''('',
            Single backslash, Single CHR '')'', Single CHR '',''],
       cat [Lit CHR ''%'',
            Set [Range CHR ''0'' CHR ''9'', Range CHR ''a'' CHR ''f'', Range CHR ''A'' CHR ''F''],
            Set [Range CHR ''0'' CHR ''9'', Range CHR ''a'' CHR ''f'', Range CHR ''A'' CHR ''F'']]])]"

definition slash_user_re :: re where
  "slash_user_re = cat [lits ''/u/'', plus (Set [WordClass])]"

definition user_re :: re where
  "user_re = cat [lits ''u/'', plus (Set [WordClass])]"

definition slash_subreddit_re :: re where
  "slash_subreddit_re = cat [lits ''/r/'', plus (Set [WordClass])]"

definition subreddit_re :: re where
  "subreddit_re = cat [lits ''r/'', plus (Set [WordClass])]"

definition newlines_re :: re where
  "newlines_re = cat [Lit newline, star (Set [SpaceClass]), Lit newline,
     star (Set [SpaceClass]), Lit newline]"

definition spaces_re :: re where
  "spaces_re = plus (Set [Single CHR '' '', Single tab])"

definition edit_upper_re :: re where
  "edit_upper_re = cat [star (Set [SpaceClass]), lits ''EDIT:'', star Dot, Eol]"

definition edit_re :: re where
  "edit_re = cat [star (Set [SpaceClass]), lits ''Edit:'', star Dot, Eol]"

definition clean_text :: "string \<Rightarrow> string" where
  "clean_text text =
     (if text = [] then []
      else
        (let text = re_sub no_flags bold_re Group1 text;
             text = re_sub no_flags italic_re Group1 text;
             text = re_sub no_flags strike_re Group1 text;
             text = re_sub no_flags superscript_re Group1 text;
             text = re_sub no_flags code_re Group1 text;
             text = re_sub MULTILINE quote_re (Text []) text;
             text = re_sub MULTILINE indented_quote_re (Text []) text;
             text = re_sub no_flags url_re (Text []) text;
             text = re_sub no_flags slash_user_re (Text []) text;
             text = re_sub no_flags user_re (Text []) text;
             text = re_sub no_flags slash_subreddit_re (Text []) text;
             text = re_sub no_flags subreddit_re (Text []) text;
             text = re_sub no_flags newlines_re (Text [newline, newline]) text;
             text = re_sub no_flags spaces_re (Text '' '') text;
             text = strip text;
             text = re_sub IGNORECASE_MULTILINE edit_upper_re (Text []) text;
             text = re_sub IGNORECASE_MULTILINE edit_re (Text []) text
         in text))"

section \<open>\<open>Conversation\<close>\<close>

record conversation =
  original_text :: string
  reply_text :: string
  score :: int
  length_c :: int

definition format_for_character_ai :: "conversation \<Rightarrow> string \<Rightarrow> string" where
  "format_for_character_ai self user_placeholder =
     (let original_clean = clean_text (original_text self);
          reply_clean = clean_text (reply_text self)
      in user_placeholder @ '': '' @ original_clean @ [newline] @ ''{{char}}: '' @ reply_clean
           @ [newline, newline])"

section \<open>\<open>CharacterGenerator\<close>\<close>

definition max_definition_length :: nat where
  "max_definition_length = 32000"

definition max_single_conversation_length :: nat where
  "max_single_conversation_length = 800"

definition min_comment_length :: nat where
  "min_comment_length = 10"

definition max_comment_length :: nat where
  "max_comment_length = 300"

subsection \<open>\<open>_extract_conversations\<close>\<close>

text \<open>
  What the loop reads of a comment fetched from Reddit. \<open>submission\<close> and \<open>parent\<close> are
  \<open>None\<close> when reading them raises; the loop catches every exception of one comment and
  goes on with the next. A parent object either has a \<open>body\<close> attribute or has none.
\<close>

record submission_data =
  title :: string
  selftext :: string

datatype parent_object = WithBody string | WithoutBody

record comment =
  body :: string
  comment_score :: int
  is_root :: bool
  submission :: "submission_data option"
  parent :: "parent_object option"

definition parent_text_of :: "comment \<Rightarrow> string option" where
  "parent_text_of c =
     (if is_root c then
        (case submission c of
           None \<Rightarrow> None
         | Some p \<Rightarrow>
             Some (if selftext p \<noteq> [] \<and> length (selftext p) < max_comment_length
                   then title p @ [newline] @ selftext p else title p))
      else
        (case parent c of
           Some (WithBody b) \<Rightarrow> Some b
         | Some WithoutBody \<Rightarrow> None
         | None \<Rightarrow> None))"

text \<open>The body of the loop: the conversation appended for one comment, if any.\<close>

definition extract_conversation :: "comment \<Rightarrow> conversation option" where
  "extract_conversation c =
     (if body c = [] \<or> body c = ''[deleted]'' \<or> body c = ''[removed]'' then None
      else if length (body c) < min_comment_length \<or> length (body c) > max_comment_length
      then None
      else
        (case parent_text_of c of
           None \<Rightarrow> None
         | Some parent_text \<Rightarrow>
             if parent_text = [] \<or> length parent_text < min_comment_length
                \<or> length parent_text > max_comment_length
             then None
             else
               (let conv = \<lparr>original_text = parent_text, reply_text = body c,
                            score = max (comment_score c) 0,
                            length_c = int (length parent_text) + int (length (body c))\<rparr>;
                    formatted_length = length (format_for_character_ai conv ''{{random_user_1}}'')
                in if formatted_length \<le> max_single_conversation_length then Some conv
                   else None)))"

definition extract_conversations :: "comment list \<Rightarrow> conversation list" where
  "extract_conversations comments = List.map_filter extract_conversation comments"

subsection \<open>The sort of \<open>generate_character_definition\<close>\<close>

text \<open>
  \<open>conversations.sort(key=lambda x: (x.score, -x.length), reverse=True)\<close>. Tuples compare
  lexicographically. \<open>list.sort\<close> is stable, and with \<open>reverse=True\<close> it reverses the
  list, sorts it ascending and stably, and reverses the result, so that elements with
  equal keys keep their original order.
\<close>

definition sort_key_of :: "conversation \<Rightarrow> int \<times> int" where
  "sort_key_of x = (score x, - length_c x)"

definition sort_conversations :: "conversation list \<Rightarrow> conversation list" where
  "sort_conversations conversations = rev (sort_key sort_key_of (rev conversations))"

subsection \<open>\<open>_build_definition\<close>\<close>

definition digit_char :: "nat \<Rightarrow> char" where
  "digit_char d = char_of (48 + d)"

fun str_nat :: "nat \<Rightarrow> string" where
  "str_nat n = (if n < 10 then [digit_char n] else str_nat (n div 10) @ [digit_char (n mod 10)])"

definition str_int :: "int \<Rightarrow> string" where
  "str_int i = (if i < 0 then CHR ''-'' # str_nat (nat (- i)) else str_nat (nat i))"

definition user_placeholder_of :: "int \<Rightarrow> string" where
  "user_placeholder_of user_counter = ''{{random_user_'' @ str_int user_counter @ ''}}''"

definition intro_of :: "string \<Rightarrow> string" where
  "intro_of username =
     ''This character is based on the Reddit user u/'' @ username
       @ ''. Here are examples of how they typically respond:'' @ [newline, newline]"

record build_state =
  definition_parts :: "string list"
  current_length :: nat
  user_counter :: int

text \<open>The \<open>for\<close> loop; \<open>break\<close> returns the state as it is.\<close>

fun build_loop :: "conversation list \<Rightarrow> build_state \<Rightarrow> build_state" where
  "build_loop [] st = st"
| "build_loop (conv # convs) st =
     (let user_placeholder = user_placeholder_of (user_counter st);
          formatted_conv = format_for_character_ai conv user_placeholder
      in if current_length st + length formatted_conv > max_definition_length then st
         else build_loop convs
                \<lparr>definition_parts = definition_parts st @ [formatted_conv],
                 current_length = current_length st + length formatted_conv,
                 user_counter = (user_counter st mod 5) + 1\<rparr>)"

definition initial_state :: "string \<Rightarrow> build_state" where
  "initial_state username =
     \<lparr>definition_parts = [intro_of username],
      current_length = 0 + length (intro_of username),
      user_counter = 1\<rparr>"

definition build_parts :: "conversation list \<Rightarrow> string \<Rightarrow> string list" where
  "build_parts conversations username =
     definition_parts (build_loop conversations (initial_state username))"

definition build_definition :: "conversation list \<Rightarrow> string \<Rightarrow> string" where
  "build_definition conversations username = concat (build_parts conversations username)"

subsection \<open>\<open>generate_character_definition\<close>\<close>

definition no_conversations_message :: "string \<Rightarrow> string" where
  "no_conversations_message username =
     ''No suitable conversations found for u/'' @ username
       @ ''. The user might have no public activity or all comments are too short/long.''"

definition generate_character_definition :: "comment list \<Rightarrow> string \<Rightarrow> string" where
  "generate_character_definition comments username =
     (let conversations = extract_conversations comments
      in if conversations = [] then no_conversations_message username
         else build_definition (sort_conversations conversations) username)"

section \<open>Notions used in the proofs\<close>

text \<open>
  The least number of characters a match of an expression consumes, the length of the
  captured group, and what every match of \<open>matches\<close> satisfies: it consumes a prefix
  \<open>u\<close> of the remaining text, of at least \<open>min_len\<close> characters, and the group it
  captured is no longer than \<open>u\<close>.
\<close>

fun min_len :: "re \<Rightarrow> nat" where
  "min_len (Lit d) = 1"
| "min_len Dot = 1"
| "min_len (Set its) = 1"
| "min_len Bol = 0"
| "min_len Eol = 0"
| "min_len Eps = 0"
| "min_len (Seq r1 r2) = min_len r1 + min_len r2"
| "min_len (Alt r1 r2) = min (min_len r1) (min_len r2)"
| "min_len (Star greedy r) = 0"
| "min_len (Group r) = min_len r"

fun glen :: "string option \<Rightarrow> nat" where
  "glen None = 0"
| "glen (Some s) = length s"

definition consumes :: "re \<Rightarrow> mstate \<Rightarrow> mstate \<Rightarrow> bool" where
  "consumes r st st' =
     (\<exists>u. fst (snd st) = u @ fst (snd st') \<and> fst st' = rev u @ fst st
          \<and> min_len r \<le> length u \<and> glen (snd (snd st')) \<le> glen (snd (snd st)) + length u)"

text \<open>A template fits an expression when its expansion is never longer than the match.\<close>

fun fits :: "template \<Rightarrow> re \<Rightarrow> bool" where
  "fits (Text s) r = (length s \<le> min_len r)"
| "fits Group1 r = True"

text \<open>
  \<open>requires f c r\<close>: every match of \<open>r\<close> consumes the character \<open>c\<close>, so \<open>r\<close> matches
  nowhere in a text without \<open>c\<close>.
\<close>

fun requires :: "flags \<Rightarrow> char \<Rightarrow> re \<Rightarrow> bool" where
  "requires f c (Lit d) = (\<forall>x. lit_eq f d x \<longrightarrow> x = c)"
| "requires f c (Seq r1 r2) = (requires f c r1 \<or> requires f c r2)"
| "requires f c (Alt r1 r2) = (requires f c r1 \<and> requires f c r2)"
| "requires f c (Group r) = requires f c r"
| "requires f c r = False"

text \<open>
  What the substitution of \<open>[ \t]+\<close> by one space computes, and the texts it leaves
  unchanged: those without a tab and without two spaces in a row.
\<close>

definition blank :: "char \<Rightarrow> bool" where
  "blank c = (c = CHR '' '' \<or> c = tab)"

function collapse :: "string \<Rightarrow> string" where
  "collapse [] = []"
| "collapse (c # cs) =
     (if blank c then CHR '' '' # collapse (dropWhile blank cs) else c # collapse cs)"
  by pat_completeness auto
termination
  by (relation "measure length") (auto simp: length_dropWhile_le less_Suc_eq_le)


text \<open>
  A plain text has none of the characters that the expressions of \<open>_clean_text\<close> other
  than the white-space ones need: \<open>* ~ ^ & / :\<close>, the backtick and the newline.
\<close>

definition markup_chars :: string where
  "markup_chars = ''*~^&/:'' @ [backtick, newline]"

definition plain_text :: "string \<Rightarrow> bool" where
  "plain_text x = (set x \<inter> set markup_chars = {})"

section \<open>Concrete inputs\<close>

definition example_conversation :: conversation where
  "example_conversation = \<lparr>original_text = ''How are you today?'',
     reply_text = ''Fine, thank you.'', score = 3, length_c = 34\<rparr>"

definition example_comment :: comment where
  "example_comment = \<lparr>body = ''Fine, thank you.'', comment_score = 3, is_root = False,
     submission = None, parent = Some (WithBody ''How are you today?'')\<rparr>"

definition short_comment :: comment where
  "short_comment = \<lparr>body = ''hello'', comment_score = 7, is_root = False,
     submission = None, parent = Some (WithBody ''How are you today?'')\<rparr>"

definition shorter_conversation :: conversation where
  "shorter_conversation = \<lparr>original_text = ''0123456789'', reply_text = ''abcdefghij'',
     score = 1, length_c = 20\<rparr>"

definition longer_conversation :: conversation where
  "longer_conversation = \<lparr>original_text = ''0123456789'',
     reply_text = ''abcdefghijabcdefghij'', score = 1, length_c = 30\<rparr>"

definition full_conversation :: conversation where
  "full_conversation = \<lparr>original_text = replicate 300 CHR ''a'',
     reply_text = replicate 300 CHR ''a'', score = 1, length_c = 600\<rparr>"

definition long_username :: string where
  "long_username = replicate 31904 CHR ''a''"


definition scenario_a :: string where
  "scenario_a = ''**hi** u/bob check http://x.co EDIT: nvm''"

section \<open>The sort\<close>

lemma key_order:
  "sort_key_of b \<le> sort_key_of a \<longleftrightarrow>
   score b < score a \<or> (score a = score b \<and> length_c a \<le> length_c b)"
  by (auto simp: sort_key_of_def less_eq_prod_def)

lemma set_sort_conversations: "set (sort_conversations xs) = set xs"
  by (simp add: sort_conversations_def)

text \<open>
  C1, as the code has it. The sort key is \<open>(score, -length)\<close> and the order is reversed,
  so the result is descending by score and, among equal scores, \<^emph>\<open>ascending\<close> by length:
  for all conversations \<open>a\<close> before \<open>b\<close> in the result (adjacent ones in particular),
  \<open>a.score > b.score\<close>, or \<open>a.score = b.score\<close> and \<open>a.length \<le> b.length\<close>. The sort is
  stable (conversations with the same score and length keep their input order) and
  returns a rearrangement of its input.
\<close>

theorem sort_conversations_order:
  "sorted_wrt (\<lambda>a b. score b < score a \<or> (score a = score b \<and> length_c a \<le> length_c b))
     (sort_conversations conversations)
   \<and> filter (\<lambda>x. sort_key_of x = k) (sort_conversations conversations)
       = filter (\<lambda>x. sort_key_of x = k) conversations
   \<and> length (sort_conversations conversations) = length conversations
   \<and> set (sort_conversations conversations) = set conversations"
proof -
  have "sorted (map sort_key_of (sort_key sort_key_of (rev conversations)))"
    by (rule sorted_sort_key)
  then have "sorted_wrt (\<lambda>x y. sort_key_of x \<le> sort_key_of y)
      (sort_key sort_key_of (rev conversations))"
    by (simp add: sorted_map)
  then have "sorted_wrt (\<lambda>a b. sort_key_of b \<le> sort_key_of a) (sort_conversations conversations)"
    by (simp add: sort_conversations_def sorted_wrt_rev)
  then have ordered: "sorted_wrt
      (\<lambda>a b. score b < score a \<or> (score a = score b \<and> length_c a \<le> length_c b))
      (sort_conversations conversations)"
    by (simp add: key_order)
  have stable: "filter (\<lambda>x. sort_key_of x = k) (sort_conversations conversations)
       = filter (\<lambda>x. sort_key_of x = k) conversations"
    by (simp add: sort_conversations_def rev_filter [symmetric] sort_key_stable)
  show ?thesis using ordered stable by (simp add: sort_conversations_def)
qed

text \<open>
  C1 as stated fails: of two conversations with score 1 and lengths 30 and 20, given
  longer first, the sort puts the one of length 20 first, and that adjacent pair has
  neither a greater score in front nor an equal score with a length at least as great.
\<close>

theorem sort_conversations_longer_first_counterexample:
  "sort_conversations [longer_conversation, shorter_conversation]
     = [shorter_conversation, longer_conversation]
   \<and> \<not> (score longer_conversation < score shorter_conversation
        \<or> (score shorter_conversation = score longer_conversation
            \<and> length_c longer_conversation \<le> length_c shorter_conversation))"
  by (simp add: sort_conversations_def sort_key_of_def shorter_conversation_def
      longer_conversation_def)

section \<open>The placeholders\<close>

lemma str_int_digit: "0 \<le> i \<Longrightarrow> i < 10 \<Longrightarrow> length (str_int i) = 1"
  by (simp add: str_int_def)

lemma user_placeholder_length:
  "1 \<le> i \<Longrightarrow> i \<le> 5 \<Longrightarrow> length (user_placeholder_of i) = 17"
  by (simp add: user_placeholder_of_def str_int_digit)

lemma format_length:
  "length (format_for_character_ai c p) =
     length p + length (clean_text (original_text c)) + length (clean_text (reply_text c)) + 15"
  by (simp add: format_for_character_ai_def Let_def)

lemma counter_step: "(int (m mod 5) + 1) mod 5 + 1 = int (Suc m mod 5) + 1"
  by (simp add: zmod_int) presburger

text \<open>
  C9. For every conversation and any two counters \<open>i\<close>, \<open>j\<close> of the rotation 1..5, the
  forms rendered with \<open>{{random_user_i}}\<close> and \<open>{{random_user_j}}\<close> have the same length,
  which is also the length of the form rendered with the literal \<open>{{random_user_1}}\<close>
  that \<open>_extract_conversations\<close> checks.
\<close>

theorem placeholder_render_lengths_equal:
  "1 \<le> i \<Longrightarrow> i \<le> 5 \<Longrightarrow> 1 \<le> j \<Longrightarrow> j \<le> 5 \<Longrightarrow>
   length (format_for_character_ai c (user_placeholder_of i))
     = length (format_for_character_ai c (user_placeholder_of j))
   \<and> length (format_for_character_ai c (user_placeholder_of i))
     = length (format_for_character_ai c ''{{random_user_1}}'')"
  by (simp add: format_length user_placeholder_length)

theorem placeholder_render_lengths_equal_witness:
  "length (format_for_character_ai example_conversation (user_placeholder_of 2))
     = length (format_for_character_ai example_conversation (user_placeholder_of 5))
   \<and> length (format_for_character_ai example_conversation (user_placeholder_of 2))
     = length (format_for_character_ai example_conversation ''{{random_user_1}}'')"
  using placeholder_render_lengths_equal [of 2 5 example_conversation] by simp

section \<open>The loop of \<open>_build_definition\<close>\<close>

lemma length_intro: "length (intro_of u) = length u + 97"
  by (simp add: intro_of_def)

lemma build_loop_overflow:
  "max_definition_length <
     current_length (build_loop xs st)
       + length (format_for_character_ai c (user_placeholder_of (user_counter (build_loop xs st))))
   \<Longrightarrow> build_loop (xs @ c # ys) st = build_loop xs st"
proof (induction xs arbitrary: st)
  case Nil
  then show ?case by (simp add: Let_def)
next
  case (Cons x xs)
  show ?case
  proof (cases "max_definition_length < current_length st
      + length (format_for_character_ai x (user_placeholder_of (user_counter st)))")
    case True
    then show ?thesis by (simp add: Let_def)
  next
    case False
    with Cons.prems show ?thesis by (simp add: Let_def Cons.IH)
  qed
qed

lemma build_loop_total:
  "current_length st = length (concat (definition_parts st)) \<Longrightarrow>
   length (concat (definition_parts (build_loop convs st)))
     \<le> max max_definition_length (current_length st)"
proof (induction convs arbitrary: st)
  case Nil
  then show ?case by simp
next
  case (Cons c convs)
  let ?f = "format_for_character_ai c (user_placeholder_of (user_counter st))"
  show ?case
  proof (cases "current_length st + length ?f > max_definition_length")
    case True
    with Cons.prems show ?thesis by (simp add: Let_def)
  next
    case False
    let ?st = "\<lparr>definition_parts = definition_parts st @ [?f],
                 current_length = current_length st + length ?f,
                 user_counter = (user_counter st mod 5) + 1\<rparr>"
    have "length (concat (definition_parts (build_loop convs ?st)))
            \<le> max max_definition_length (current_length ?st)"
      by (rule Cons.IH) (simp add: Cons.prems)
    with False show ?thesis by (simp add: Let_def)
  qed
qed

lemma build_loop_prefix:
  "\<exists>bs. definition_parts (build_loop convs st) = definition_parts st @ bs"
proof (induction convs arbitrary: st)
  case Nil
  then show ?case by simp
next
  case (Cons c convs)
  let ?f = "format_for_character_ai c (user_placeholder_of (user_counter st))"
  let ?st = "\<lparr>definition_parts = definition_parts st @ [?f],
               current_length = current_length st + length ?f,
               user_counter = (user_counter st mod 5) + 1\<rparr>"
  from Cons.IH [of ?st] obtain bs where
    "definition_parts (build_loop convs ?st) = definition_parts ?st @ bs" by blast
  then show ?case by (simp add: Let_def)
qed

lemma build_loop_nth:
  "user_counter st = int (m mod 5) + 1 \<Longrightarrow>
   n < length (definition_parts (build_loop convs st)) - length (definition_parts st) \<Longrightarrow>
   n < length convs \<and>
   definition_parts (build_loop convs st) ! (length (definition_parts st) + n) =
     format_for_character_ai (convs ! n) (user_placeholder_of (int ((m + n) mod 5) + 1))"
proof (induction convs arbitrary: st m n)
  case Nil
  then show ?case by simp
next
  case (Cons c convs)
  let ?f = "format_for_character_ai c (user_placeholder_of (user_counter st))"
  let ?st = "\<lparr>definition_parts = definition_parts st @ [?f],
               current_length = current_length st + length ?f,
               user_counter = (user_counter st mod 5) + 1\<rparr>"
  show ?case
  proof (cases "current_length st + length ?f > max_definition_length")
    case True
    with Cons.prems show ?thesis by (simp add: Let_def)
  next
    case False
    then have loop: "build_loop (c # convs) st = build_loop convs ?st"
      by (simp add: Let_def)
    have cnt: "user_counter ?st = int (Suc m mod 5) + 1"
      using Cons.prems(1) by (simp add: counter_step)
    show ?thesis
    proof (cases n)
      case 0
      from build_loop_prefix [of convs ?st] obtain bs where
        "definition_parts (build_loop convs ?st) = definition_parts ?st @ bs" by blast
      with 0 loop Cons.prems(1) show ?thesis by (simp add: nth_append)
    next
      case (Suc k)
      with Cons.prems(2) loop
      have "k < length (definition_parts (build_loop convs ?st)) - length (definition_parts ?st)"
        by simp
      from Cons.IH [OF cnt this] Suc loop show ?thesis by simp
    qed
  qed
qed

lemma build_loop_counter:
  "user_counter st = int (m mod 5) + 1 \<Longrightarrow>
   user_counter (build_loop convs st) =
     int ((m + (length (definition_parts (build_loop convs st)) - length (definition_parts st)))
          mod 5) + 1"
proof (induction convs arbitrary: st m)
  case Nil
  then show ?case by simp
next
  case (Cons c convs)
  let ?f = "format_for_character_ai c (user_placeholder_of (user_counter st))"
  let ?st = "\<lparr>definition_parts = definition_parts st @ [?f],
               current_length = current_length st + length ?f,
               user_counter = (user_counter st mod 5) + 1\<rparr>"
  show ?case
  proof (cases "current_length st + length ?f > max_definition_length")
    case True
    with Cons.prems show ?thesis by (simp add: Let_def)
  next
    case False
    then have loop: "build_loop (c # convs) st = build_loop convs ?st"
      by (simp add: Let_def)
    have cnt: "user_counter ?st = int (Suc m mod 5) + 1"
      using Cons.prems(1) by (simp add: counter_step)
    from build_loop_prefix [of convs ?st] obtain bs where
      bs: "definition_parts (build_loop convs ?st) = definition_parts ?st @ bs" by blast
    from Cons.IH [OF cnt] loop bs show ?thesis by simp
  qed
qed

section \<open>Evaluating the example\<close>

lemma clean_text_example_original: "clean_text ''How are you today?'' = ''How are you today?''"
  by code_simp

lemma clean_text_example_reply: "clean_text ''Fine, thank you.'' = ''Fine, thank you.''"
  by code_simp

lemma example_parts_one:
  "build_parts [example_conversation] ''bob'' =
   [intro_of ''bob'', format_for_character_ai example_conversation (user_placeholder_of 1)]"
  by (simp add: build_parts_def initial_state_def Let_def format_length
      clean_text_example_original clean_text_example_reply example_conversation_def
      user_placeholder_length length_intro max_definition_length_def)

lemma example_parts:
  "build_parts [example_conversation, example_conversation] ''bob'' =
   [intro_of ''bob'',
    format_for_character_ai example_conversation (user_placeholder_of 1),
    format_for_character_ai example_conversation (user_placeholder_of 2)]"
  by (simp add: build_parts_def initial_state_def Let_def format_length
      clean_text_example_original clean_text_example_reply example_conversation_def
      user_placeholder_length length_intro max_definition_length_def)

lemma extract_example: "extract_conversations [example_comment] = [example_conversation]"
  by (simp add: extract_conversations_def extract_conversation_def example_comment_def
      example_conversation_def parent_text_of_def Let_def format_length
      clean_text_example_original clean_text_example_reply
      min_comment_length_def max_comment_length_def max_single_conversation_length_def)

section \<open>The budget of the artifact\<close>

text \<open>
  C2, as the code has it. The intro line is appended without a check, and it has 97
  characters besides the username. For every sequence of conversations and every
  username of at most 31903 characters (so that the intro line alone is within the
  budget), the artifact has at most \<open>max_definition_length = 32000\<close> characters.
\<close>

theorem build_definition_within_budget:
  "length username \<le> 31903 \<Longrightarrow>
   length (build_definition conversations username) \<le> max_definition_length"
  using build_loop_total [of "initial_state username" conversations]
  by (simp add: build_definition_def build_parts_def initial_state_def length_intro
      max_definition_length_def)

theorem build_definition_within_budget_witness:
  "length ''bob'' \<le> 31903
   \<and> length (build_definition [example_conversation] ''bob'') \<le> max_definition_length"
  using build_definition_within_budget [of "''bob''" "[example_conversation]"] by simp

text \<open>
  C2 as stated fails for a username of 31904 characters: with no conversation at all the
  artifact is the intro line, of 32001 characters.
\<close>

theorem build_definition_long_username_counterexample:
  "\<not> length (build_definition [] long_username) \<le> max_definition_length"
  by (simp add: build_definition_def build_parts_def initial_state_def length_intro
      max_definition_length_def long_username_def)

section \<open>Stop, not skip\<close>

text \<open>
  C4. Let the loop have processed \<open>xs\<close>. If the rendered text of the next conversation
  \<open>c\<close> would make the running total exceed \<open>max_definition_length\<close>, then whatever
  conversations \<open>ys\<close> follow, the parts and the artifact are those of \<open>xs\<close> alone: nothing
  after \<open>c\<close> is appended.
\<close>

theorem stop_at_first_overflow:
  "max_definition_length <
     current_length (build_loop xs (initial_state username))
       + length (format_for_character_ai c
           (user_placeholder_of (user_counter (build_loop xs (initial_state username)))))
   \<Longrightarrow> build_parts (xs @ c # ys) username = build_parts xs username
     \<and> build_definition (xs @ c # ys) username = build_definition xs username"
  by (simp add: build_definition_def build_parts_def build_loop_overflow)

section \<open>The rotation of the placeholders\<close>

text \<open>
  C5. The parts of the artifact are the intro line at index 0 and the accepted
  conversations after it. For every \<open>n \<ge> 1\<close>, the \<open>n\<close>-th accepted conversation is the
  \<open>n\<close>-th conversation of the input, rendered with \<open>{{random_user_c}}\<close> where
  \<open>c = ((n - 1) mod 5) + 1\<close>; and the counter the loop ends with has advanced once per
  accepted conversation.
\<close>

theorem accepted_block_placeholder:
  "1 \<le> n \<Longrightarrow> n < length (build_parts conversations username) \<Longrightarrow>
   n - 1 < length conversations
   \<and> build_parts conversations username ! n =
       format_for_character_ai (conversations ! (n - 1))
         (user_placeholder_of (int ((n - 1) mod 5) + 1))
   \<and> user_counter (build_loop conversations (initial_state username)) =
       int ((length (build_parts conversations username) - 1) mod 5) + 1"
  using build_loop_nth [of "initial_state username" 0 "n - 1" conversations]
    build_loop_counter [of "initial_state username" 0 conversations]
  by (simp add: build_parts_def initial_state_def)

theorem accepted_block_placeholder_witness:
  "(1::nat) \<le> 2 \<and> 2 < length (build_parts [example_conversation, example_conversation] ''bob'')
   \<and> build_parts [example_conversation, example_conversation] ''bob'' ! 2 =
       format_for_character_ai example_conversation (user_placeholder_of 2)"
  using accepted_block_placeholder [of 2 "[example_conversation, example_conversation]" "''bob''"]
  by (simp add: example_parts)

section \<open>The limit of one conversation\<close>

lemma extract_conversation_formatted:
  "extract_conversation c = Some conv \<Longrightarrow>
   length (format_for_character_ai conv ''{{random_user_1}}'') \<le> max_single_conversation_length"
  by (auto simp: extract_conversation_def Let_def split: if_splits option.splits)

lemma in_map_filter: "y \<in> set (List.map_filter f xs) \<Longrightarrow> \<exists>x \<in> set xs. f x = Some y"
  by (induction xs) (auto split: option.splits)

lemma extract_conversations_formatted:
  "conv \<in> set (extract_conversations comments) \<Longrightarrow>
   length (format_for_character_ai conv ''{{random_user_1}}'') \<le> max_single_conversation_length"
  by (auto simp: extract_conversations_def dest!: in_map_filter extract_conversation_formatted)

lemma accepted_block_bound:
  assumes fits: "\<And>conv. conv \<in> set convs \<Longrightarrow>
      length (format_for_character_ai conv ''{{random_user_1}}'') \<le> max_single_conversation_length"
    and b: "b \<in> set (tl (build_parts convs username))"
  shows "length b \<le> max_single_conversation_length"
proof -
  let ?parts = "build_parts convs username"
  from b obtain k where k: "k < length (tl ?parts)" and bk: "b = tl ?parts ! k"
    by (auto simp: in_set_conv_nth)
  from k have ne: "?parts \<noteq> []" by auto
  from k bk ne have bn: "b = ?parts ! Suc k" by (simp add: nth_tl)
  from k have kl: "k < length (definition_parts (build_loop convs (initial_state username)))
      - length (definition_parts (initial_state username))"
    by (simp add: build_parts_def initial_state_def)
  have "user_counter (initial_state username) = int (0 mod 5) + 1"
    by (simp add: initial_state_def)
  from build_loop_nth [OF this kl]
  have kc: "k < length convs"
    and eq: "b = format_for_character_ai (convs ! k) (user_placeholder_of (int (k mod 5) + 1))"
    using bn by (simp_all add: build_parts_def initial_state_def)
  have "length b = length (format_for_character_ai (convs ! k) ''{{random_user_1}}'')"
    unfolding eq by (simp add: format_length user_placeholder_length)
  with fits [of "convs ! k"] kc show ?thesis by simp
qed

text \<open>
  C3. Whatever comments are fetched, every part of the artifact after the intro line,
  that is every rendered conversation the loop of \<open>_build_definition\<close> appended, has at
  most \<open>max_single_conversation_length = 800\<close> characters: \<open>_extract_conversations\<close>
  retains a conversation only if its form rendered with \<open>{{random_user_1}}\<close> is within
  the limit, and the five placeholders have the same length.
\<close>

theorem accepted_blocks_within_single_limit:
  "b \<in> set (tl (build_parts (sort_conversations (extract_conversations comments)) username)) \<Longrightarrow>
   length b \<le> max_single_conversation_length"
  by (rule accepted_block_bound [where convs = "sort_conversations (extract_conversations comments)"])
     (simp_all add: set_sort_conversations extract_conversations_formatted)

theorem accepted_blocks_within_single_limit_witness:
  "format_for_character_ai example_conversation (user_placeholder_of 1)
     \<in> set (tl (build_parts (sort_conversations (extract_conversations [example_comment])) ''bob''))
   \<and> length (format_for_character_ai example_conversation (user_placeholder_of 1))
       \<le> max_single_conversation_length"
  using accepted_blocks_within_single_limit
    [of "format_for_character_ai example_conversation (user_placeholder_of 1)"
        "[example_comment]" "''bob''"]
  by (simp add: extract_example sort_conversations_def example_parts_one)

section \<open>The length filter of the comments\<close>

text \<open>
  C8. A comment whose body is shorter than \<open>min_comment_length = 10\<close> or longer than
  \<open>max_comment_length = 300\<close> yields no conversation, and the conversations extracted from
  a list of comments are the same with and without it; so it is for a body of 5
  characters.
\<close>

theorem short_or_long_body_rejected:
  "length (body c) < min_comment_length \<or> max_comment_length < length (body c) \<Longrightarrow>
   extract_conversation c = None
   \<and> extract_conversations (before @ c # after) = extract_conversations (before @ after)"
  by (auto simp: extract_conversation_def extract_conversations_def List.map_filter_def)

theorem short_or_long_body_rejected_witness:
  "length (body short_comment) = 5 \<and> length (body short_comment) < min_comment_length
   \<and> extract_conversation short_comment = None
   \<and> extract_conversations ([example_comment] @ short_comment # [])
       = extract_conversations ([example_comment] @ [])"
  using short_or_long_body_rejected [of short_comment "[example_comment]" "[]"]
  by (simp add: short_comment_def min_comment_length_def)

section \<open>Scenario A\<close>

text \<open>
  C7, as the code has it: the sanitizer turns
  \<open>**hi** u/bob check http://x.co EDIT: nvm\<close> into \<open>hi check\<close>. The bold markup is
  unwrapped and the mention, the URL and the edit tail are removed, but the word
  \<open>check\<close> between the mention and the URL stays.
\<close>

theorem clean_text_scenario_a: "clean_text scenario_a = ''hi check''"
  by code_simp

text \<open>C7 as stated fails: the result is not \<open>hi\<close>.\<close>

theorem clean_text_scenario_a_counterexample: "clean_text scenario_a \<noteq> ''hi''"
  by code_simp

section \<open>The matcher and \<open>re.sub\<close>\<close>

declare matches.simps(9) [simp del]

lemma take1_consumes:
  "st' \<in> set (take1 p st) \<Longrightarrow> min_len r = 1 \<Longrightarrow> consumes r st st'"
  by (cases "(p, st)" rule: take1.cases) (auto simp: consumes_def split: if_splits)

lemma consumes_seq:
  "consumes r1 st st1 \<Longrightarrow> consumes r2 st1 st2 \<Longrightarrow> consumes (Seq r1 r2) st st2"
  unfolding consumes_def
  apply (elim exE conjE)
  subgoal for u v by (rule exI [of _ "u @ v"]) simp
  done

lemma star_cases:
  "st' \<in> set (matches f (Star greedy r) st) \<Longrightarrow>
   st' = st \<or> (\<exists>st1 \<in> set (matches f r st).
      length (fst (snd st1)) < length (fst (snd st)) \<and> st' \<in> set (matches f (Star greedy r) st1))"
  by (subst (asm) matches.simps(9)) (auto simp: Let_def split: if_splits)

lemma matches_consumes:
  "st' \<in> set (matches f r st) \<Longrightarrow> consumes r st st'"
proof (induction f r st arbitrary: st' rule: matches.induct)
  case (1 f d st)
  then show ?case by (auto intro: take1_consumes)
next
  case (2 f st)
  then show ?case by (auto intro: take1_consumes)
next
  case (3 f its st)
  then show ?case by (auto intro: take1_consumes)
next
  case (4 f pre rest g)
  then show ?case by (auto simp: consumes_def split: if_splits)
next
  case (5 f pre rest g)
  then show ?case by (auto simp: consumes_def split: if_splits)
next
  case (6 f st)
  then show ?case by (auto simp: consumes_def)
next
  case (7 f r1 r2 st)
  from "7.prems" obtain st1 where a: "st1 \<in> set (matches f r1 st)"
    and b: "st' \<in> set (matches f r2 st1)" by auto
  from consumes_seq [OF "7.IH"(1) [OF a] "7.IH"(2) [OF a b]] show ?case .
next
  case (8 f r1 r2 st)
  from "8.prems" have "st' \<in> set (matches f r1 st) \<or> st' \<in> set (matches f r2 st)" by auto
  with "8.IH" have "consumes r1 st st' \<or> consumes r2 st st'" by blast
  then show ?case by (auto simp: consumes_def)
next
  case (9 f greedy r st)
  from star_cases [OF "9.prems"] show ?case
  proof
    assume "st' = st"
    then show ?thesis by (simp add: consumes_def)
  next
    assume "\<exists>st1 \<in> set (matches f r st).
      length (fst (snd st1)) < length (fst (snd st)) \<and> st' \<in> set (matches f (Star greedy r) st1)"
    then obtain st1 where a: "st1 \<in> set (matches f r st)"
      and l: "length (fst (snd st1)) < length (fst (snd st))"
      and b: "st' \<in> set (matches f (Star greedy r) st1)" by blast
    from "9.IH"(1) [OF a] have c1: "consumes r st st1" .
    from "9.IH"(2) [OF a l b] have c2: "consumes (Star greedy r) st1 st'" .
    from consumes_seq [OF c1 c2] show ?thesis unfolding consumes_def by auto
  qed
next
  case (10 f r pre rest g)
  from "10.prems" obtain pre' rest' g' where a: "(pre', rest', g') \<in> set (matches f r (pre, rest, g))"
    and st': "st' = (pre', rest', Some (rev (take (length pre' - length pre) pre')))" by auto
  from "10.IH" [OF a] show ?case unfolding st' by (auto simp: consumes_def)
qed


declare sub_from.simps [simp del]

lemma expand_bound:
  "fits t r \<Longrightarrow> consumes r (pre, rest, None) (pre', rest', g) \<Longrightarrow>
   length (expand t g) + length rest' \<le> length rest"
  by (cases t; cases g) (auto simp: consumes_def)

lemma sub_from_length:
  "fits t r \<Longrightarrow> length (sub_from f r t pre rest) \<le> length rest"
proof (induction "length rest" arbitrary: pre rest rule: less_induct)
  case less
  have copy: "length (case rest of [] \<Rightarrow> [] | c # cs \<Rightarrow> c # sub_from f r t (c # pre) cs)
      \<le> length rest"
  proof (cases rest)
    case Nil
    then show ?thesis by simp
  next
    case (Cons c cs)
    with less.hyps [of cs "c # pre"] less.prems show ?thesis by simp
  qed
  show ?case
  proof (cases "matches f r (pre, rest, None)")
    case Nil
    with copy show ?thesis by (subst sub_from.simps) simp
  next
    case (Cons m ms)
    obtain pre' rest' g where m: "m = (pre', rest', g)" by (cases m) auto
    show ?thesis
    proof (cases "length rest' < length rest")
      case True
      have "(pre', rest', g) \<in> set (matches f r (pre, rest, None))"
        using Cons m by simp
      from expand_bound [OF less.prems matches_consumes [OF this]]
      have b: "length (expand t g) + length rest' \<le> length rest" .
      from less.hyps [OF True less.prems]
      have "length (sub_from f r t pre' rest') \<le> length rest'" .
      with b show ?thesis using Cons m True
        by (subst sub_from.simps) simp
    next
      case False
      with copy Cons m show ?thesis by (subst sub_from.simps) simp
    qed
  qed
qed

lemma re_sub_length: "fits t r \<Longrightarrow> length (re_sub f r t s) \<le> length s"
  by (simp add: re_sub_def sub_from_length)

lemma strip_length: "length (strip s) \<le> length s"
proof -
  have "length (dropWhile is_space (rev (dropWhile is_space s))) \<le> length (rev (dropWhile is_space s))"
    by (rule length_dropWhile_le)
  also have "\<dots> \<le> length s" by (simp add: length_dropWhile_le)
  finally show ?thesis by (simp add: strip_def)
qed

lemma fits_group1: "fits Group1 r"
  by simp

lemma fits_empty: "fits (Text []) r"
  by simp

lemma fits_newlines: "fits (Text [newline, newline]) newlines_re"
  by (simp add: newlines_re_def star_def)

lemma fits_spaces: "fits (Text '' '') spaces_re"
  by (simp add: spaces_re_def plus_def)

text \<open>No expression of \<open>_clean_text\<close> matches the empty string.\<close>

lemma no_empty_match:
  "1 \<le> min_len bold_re" "1 \<le> min_len italic_re" "1 \<le> min_len strike_re"
  "1 \<le> min_len superscript_re" "1 \<le> min_len code_re" "1 \<le> min_len quote_re"
  "1 \<le> min_len indented_quote_re" "1 \<le> min_len url_re" "1 \<le> min_len slash_user_re"
  "1 \<le> min_len user_re" "1 \<le> min_len slash_subreddit_re" "1 \<le> min_len subreddit_re"
  "1 \<le> min_len newlines_re" "1 \<le> min_len spaces_re" "1 \<le> min_len edit_upper_re"
  "1 \<le> min_len edit_re"
  by (simp_all add: bold_re_def italic_re_def strike_re_def superscript_re_def code_re_def
      quote_re_def indented_quote_re_def url_re_def slash_user_re_def user_re_def
      slash_subreddit_re_def subreddit_re_def newlines_re_def spaces_re_def edit_upper_re_def
      edit_re_def lits_def star_def plus_def plus_lazy_def opt_def)

text \<open>
  C10. The sanitizer never lengthens its input: every substitution replaces a match by
  its group 1, by nothing, or by a text no longer than the shortest match of its
  expression, and \<open>strip\<close> only removes characters.
\<close>

theorem clean_text_never_longer: "length (clean_text x) \<le> length x"
proof (cases "x = []")
  case True
  then show ?thesis by (simp add: clean_text_def)
next
  case False
  note le = re_sub_length [OF fits_group1] re_sub_length [OF fits_empty]
    re_sub_length [OF fits_newlines] re_sub_length [OF fits_spaces] strip_length
  show ?thesis
    unfolding clean_text_def Let_def if_not_P [OF False]
    by (intro order_trans [OF le(1)] order_trans [OF le(2)] order_trans [OF le(3)]
          order_trans [OF le(4)] order_trans [OF le(5)] order_refl)
qed

section \<open>Idempotence on plain texts\<close>

lemma consumes_suffix:
  "consumes r st st' \<Longrightarrow> set (fst (snd st')) \<subseteq> set (fst (snd st))"
  by (auto simp: consumes_def)

lemma take1_none: "(\<And>x. p x \<Longrightarrow> x \<notin> set (fst (snd st))) \<Longrightarrow> take1 p st = []"
  by (cases "(p, st)" rule: take1.cases) auto

lemma matches_requires:
  "requires f c r \<Longrightarrow> c \<notin> set (fst (snd st)) \<Longrightarrow> matches f r st = []"
proof (induction r arbitrary: st)
  case (Lit d)
  then show ?case by (auto intro!: take1_none)
next
  case (Seq r1 r2)
  show ?case
  proof (cases "requires f c r1")
    case True
    with Seq show ?thesis by simp
  next
    case False
    with Seq.prems have r2: "requires f c r2" by simp
    have "matches f r2 st1 = []" if "st1 \<in> set (matches f r1 st)" for st1
      using consumes_suffix [OF matches_consumes [OF that]] Seq.prems(2)
      by (intro Seq.IH(2) [OF r2]) auto
    then show ?thesis by simp
  qed
next
  case (Group r)
  then show ?case by (cases st) auto
qed simp_all

lemma sub_from_requires:
  "requires f c r \<Longrightarrow> c \<notin> set rest \<Longrightarrow> sub_from f r t pre rest = rest"
proof (induction rest arbitrary: pre)
  case Nil
  then show ?case by (subst sub_from.simps) (simp add: matches_requires)
next
  case (Cons a rest)
  then show ?case by (subst sub_from.simps) (simp add: matches_requires)
qed

lemma re_sub_requires:
  "requires f c r \<Longrightarrow> c \<notin> set s \<Longrightarrow> re_sub f r t s = s"
  by (simp add: re_sub_def sub_from_requires)

lemma lower_colon_self: "lower CHR '':'' = CHR '':''"
  by (simp add: lower_def)

lemma lower_colon: "lower x = lower CHR '':'' \<Longrightarrow> x = CHR '':''"
proof -
  assume a: "lower x = lower CHR '':''"
  let ?n = "of_char x :: nat"
  show ?thesis
  proof (cases "(65 \<le> ?n \<and> ?n \<le> 90) \<or> (192 \<le> ?n \<and> ?n \<le> 222 \<and> ?n \<noteq> 215)")
    case True
    with a have "char_of (?n + 32) = CHR '':''"
      by (simp add: lower_def Let_def lower_colon_self)
    then have "(of_char (char_of (?n + 32) :: char) :: nat) = of_char CHR '':''" by simp
    then have "(?n + 32) mod 256 = 58" by simp
    with True show ?thesis by auto
  next
    case False
    with a show ?thesis by (simp add: lower_def Let_def lower_colon_self)
  qed
qed


lemma requires_no_flags [simp]: "requires no_flags c (Lit c)"
  by (simp add: no_flags_def lit_eq_def)

lemma requires_multiline [simp]: "requires MULTILINE c (Lit c)"
  by (simp add: MULTILINE_def lit_eq_def)

lemma requires_colon [simp]: "requires IGNORECASE_MULTILINE CHR '':'' (Lit CHR '':'')"
  by (auto simp: IGNORECASE_MULTILINE_def lit_eq_def dest: lower_colon)

lemma requires_patterns:
  "requires no_flags CHR ''*'' bold_re"
  "requires no_flags CHR ''*'' italic_re"
  "requires no_flags CHR ''~'' strike_re"
  "requires no_flags CHR ''^'' superscript_re"
  "requires no_flags backtick code_re"
  "requires MULTILINE CHR ''&'' quote_re"
  "requires MULTILINE CHR ''&'' indented_quote_re"
  "requires no_flags CHR ''/'' url_re"
  "requires no_flags CHR ''/'' slash_user_re"
  "requires no_flags CHR ''/'' user_re"
  "requires no_flags CHR ''/'' slash_subreddit_re"
  "requires no_flags CHR ''/'' subreddit_re"
  "requires no_flags newline newlines_re"
  "requires IGNORECASE_MULTILINE CHR '':'' edit_upper_re"
  "requires IGNORECASE_MULTILINE CHR '':'' edit_re"
  by (simp_all add: bold_re_def italic_re_def strike_re_def superscript_re_def code_re_def
      quote_re_def indented_quote_re_def url_re_def slash_user_re_def user_re_def
      slash_subreddit_re_def subreddit_re_def newlines_re_def edit_upper_re_def edit_re_def
      lits_def star_def plus_def plus_lazy_def opt_def del: requires.simps(1))


lemma in_items_blank: "in_items c [Single CHR '' '', Single tab] = blank c"
  by (simp add: blank_def)

lemma star_blank_head:
  "\<exists>ms. matches f (Star True (Set [Single CHR '' '', Single tab])) (pre, rest, g)
     = (rev (takeWhile blank rest) @ pre, dropWhile blank rest, g) # ms"
proof (induction rest arbitrary: pre)
  case Nil
  show ?case by (subst matches.simps(9)) simp
next
  case (Cons c cs)
  show ?case
  proof (cases "blank c")
    case True
    from Cons [of "c # pre"] obtain ms where
      "matches f (Star True (Set [Single CHR '' '', Single tab])) (c # pre, cs, g)
         = (rev (takeWhile blank cs) @ c # pre, dropWhile blank cs, g) # ms" by blast
    with True show ?thesis
      by (subst matches.simps(9)) (simp add: in_items_blank del: in_items.simps)
  next
    case False
    then show ?thesis
      by (subst matches.simps(9)) (simp add: in_items_blank del: in_items.simps)
  qed
qed

lemma spaces_match:
  "matches f spaces_re (pre, c # cs, g) =
     (if blank c then matches f (Star True (Set [Single CHR '' '', Single tab])) (c # pre, cs, g)
      else [])"
  by (simp add: spaces_re_def plus_def in_items_blank del: in_items.simps)

lemma sub_from_spaces:
  "sub_from f spaces_re (Text '' '') pre rest = collapse rest"
proof (induction "length rest" arbitrary: pre rest rule: less_induct)
  case less
  show ?case
  proof (cases rest)
    case Nil
    then show ?thesis
      by (subst sub_from.simps) (simp add: spaces_re_def plus_def)
  next
    case (Cons c cs)
    show ?thesis
    proof (cases "blank c")
      case True
      from star_blank_head [of f "c # pre" cs None] obtain ms where
        ms: "matches f (Star True (Set [Single CHR '' '', Single tab])) (c # pre, cs, None)
           = (rev (takeWhile blank cs) @ c # pre, dropWhile blank cs, None) # ms" by blast
      have shorter: "length (dropWhile blank cs) < length rest"
        using Cons by (simp add: length_dropWhile_le less_Suc_eq_le)
      from less [OF shorter]
      have "sub_from f spaces_re (Text '' '') (rev (takeWhile blank cs) @ c # pre)
              (dropWhile blank cs) = collapse (dropWhile blank cs)" .
      with True Cons ms shorter show ?thesis
        by (subst sub_from.simps) (simp add: spaces_match)
    next
      case False
      from less [of cs "c # pre"] Cons
      have "sub_from f spaces_re (Text '' '') (c # pre) cs = collapse cs" by simp
      with False Cons show ?thesis
        by (subst sub_from.simps) (simp add: spaces_match)
    qed
  qed
qed

lemma set_collapse: "set (collapse x) \<subseteq> insert CHR '' '' (set x)"
proof (induction x rule: collapse.induct)
  case 1
  show ?case by simp
next
  case (2 c cs)
  have "set (dropWhile blank cs) \<subseteq> set cs" by (rule set_dropWhileD [THEN subsetI])
  with 2 show ?case by (cases "blank c") auto
qed






lemma set_strip: "set (strip y) \<subseteq> set y"
proof -
  have "set (dropWhile is_space (rev (dropWhile is_space y))) \<subseteq> set (rev (dropWhile is_space y))"
    by (rule set_dropWhileD [THEN subsetI])
  moreover have "set (dropWhile is_space y) \<subseteq> set y"
    by (rule set_dropWhileD [THEN subsetI])
  ultimately show ?thesis by (auto simp: strip_def)
qed



lemma re_sub_spaces: "re_sub f spaces_re (Text '' '') s = collapse s"
  by (simp add: re_sub_def sub_from_spaces)

lemma plain_text_chars:
  assumes "plain_text x"
  shows "CHR ''*'' \<notin> set x" "CHR ''~'' \<notin> set x" "CHR ''^'' \<notin> set x" "backtick \<notin> set x"
    "CHR ''&'' \<notin> set x" "CHR ''/'' \<notin> set x" "CHR '':'' \<notin> set x" "newline \<notin> set x"
  using assms by (auto simp: plain_text_def markup_chars_def)

lemma plain_text_strip_collapse: "plain_text x \<Longrightarrow> plain_text (strip (collapse x))"
proof -
  assume p: "plain_text x"
  have "set (strip (collapse x)) \<subseteq> insert CHR '' '' (set x)"
    using set_strip [of "collapse x"] set_collapse [of x] by blast
  moreover have "CHR '' '' \<notin> set markup_chars"
    by (simp add: markup_chars_def backtick_def newline_def)
  ultimately show ?thesis using p by (auto simp: plain_text_def)
qed

lemma clean_text_plain: "plain_text x \<Longrightarrow> clean_text x = strip (collapse x)"
proof (cases "x = []")
  case True
  then show ?thesis by (simp add: clean_text_def strip_def)
next
  case False
  assume p: "plain_text x"
  note x = plain_text_chars [OF p]
  note z = plain_text_chars [OF plain_text_strip_collapse [OF p]]
  have 1: "re_sub no_flags bold_re Group1 x = x"
    by (rule re_sub_requires [OF requires_patterns(1) x(1)])
  have 2: "re_sub no_flags italic_re Group1 x = x"
    by (rule re_sub_requires [OF requires_patterns(2) x(1)])
  have 3: "re_sub no_flags strike_re Group1 x = x"
    by (rule re_sub_requires [OF requires_patterns(3) x(2)])
  have 4: "re_sub no_flags superscript_re Group1 x = x"
    by (rule re_sub_requires [OF requires_patterns(4) x(3)])
  have 5: "re_sub no_flags code_re Group1 x = x"
    by (rule re_sub_requires [OF requires_patterns(5) x(4)])
  have 6: "re_sub MULTILINE quote_re (Text []) x = x"
    by (rule re_sub_requires [OF requires_patterns(6) x(5)])
  have 7: "re_sub MULTILINE indented_quote_re (Text []) x = x"
    by (rule re_sub_requires [OF requires_patterns(7) x(5)])
  have 8: "re_sub no_flags url_re (Text []) x = x"
    by (rule re_sub_requires [OF requires_patterns(8) x(6)])
  have 9: "re_sub no_flags slash_user_re (Text []) x = x"
    by (rule re_sub_requires [OF requires_patterns(9) x(6)])
  have 10: "re_sub no_flags user_re (Text []) x = x"
    by (rule re_sub_requires [OF requires_patterns(10) x(6)])
  have 11: "re_sub no_flags slash_subreddit_re (Text []) x = x"
    by (rule re_sub_requires [OF requires_patterns(11) x(6)])
  have 12: "re_sub no_flags subreddit_re (Text []) x = x"
    by (rule re_sub_requires [OF requires_patterns(12) x(6)])
  have 13: "re_sub no_flags newlines_re (Text [newline, newline]) x = x"
    by (rule re_sub_requires [OF requires_patterns(13) x(8)])
  have 16: "re_sub IGNORECASE_MULTILINE edit_upper_re (Text []) (strip (collapse x))
      = strip (collapse x)"
    by (rule re_sub_requires [OF requires_patterns(14) z(7)])
  have 17: "re_sub IGNORECASE_MULTILINE edit_re (Text []) (strip (collapse x))
      = strip (collapse x)"
    by (rule re_sub_requires [OF requires_patterns(15) z(7)])
  show ?thesis
    unfolding clean_text_def Let_def if_not_P [OF False]
    by (simp only: 1 2 3 4 5 6 7 8 9 10 11 12 13 re_sub_spaces 16 17)
qed





section \<open>A budget that is used up\<close>

lemma collapse_replicate: "\<not> blank a \<Longrightarrow> collapse (replicate n a) = replicate n a"
  by (induction n) simp_all

lemma strip_replicate: "\<not> is_space a \<Longrightarrow> strip (replicate n a) = replicate n a"
proof -
  assume a: "\<not> is_space a"
  then have "dropWhile is_space (replicate n a) = replicate n a"
    by (cases n) simp_all
  then show ?thesis by (simp add: strip_def)
qed

lemma clean_text_letters: "clean_text (replicate n CHR ''a'') = replicate n CHR ''a''"
proof -
  have "plain_text (replicate n CHR ''a'')"
    by (auto simp: plain_text_def markup_chars_def backtick_def newline_def)
  then have "clean_text (replicate n CHR ''a'') = strip (collapse (replicate n CHR ''a''))"
    by (rule clean_text_plain)
  also have "\<dots> = replicate n CHR ''a''"
    by (simp add: collapse_replicate strip_replicate blank_def tab_def is_space_def)
  finally show ?thesis .
qed

lemma full_format_length:
  "1 \<le> i \<Longrightarrow> i \<le> 5 \<Longrightarrow>
   length (format_for_character_ai full_conversation (user_placeholder_of i)) = 632"
  by (simp add: format_length user_placeholder_length full_conversation_def clean_text_letters)

lemma build_loop_full:
  "1 \<le> user_counter st \<Longrightarrow> user_counter st \<le> 5 \<Longrightarrow>
   current_length st + n * 632 \<le> max_definition_length \<Longrightarrow>
   current_length (build_loop (replicate n full_conversation) st) = current_length st + n * 632
   \<and> 1 \<le> user_counter (build_loop (replicate n full_conversation) st)
   \<and> user_counter (build_loop (replicate n full_conversation) st) \<le> 5"
proof (induction n arbitrary: st)
  case 0
  then show ?case by simp
next
  case (Suc n)
  let ?f = "format_for_character_ai full_conversation (user_placeholder_of (user_counter st))"
  let ?st = "\<lparr>definition_parts = definition_parts st @ [?f],
               current_length = current_length st + length ?f,
               user_counter = (user_counter st mod 5) + 1\<rparr>"
  have len: "length ?f = 632" using Suc.prems by (simp add: full_format_length)
  have "1 \<le> user_counter ?st" "user_counter ?st \<le> 5" by simp_all
  moreover have "current_length ?st + n * 632 \<le> max_definition_length"
    using Suc.prems(3) len by simp
  ultimately have ih: "current_length (build_loop (replicate n full_conversation) ?st)
        = current_length ?st + n * 632
     \<and> 1 \<le> user_counter (build_loop (replicate n full_conversation) ?st)
     \<and> user_counter (build_loop (replicate n full_conversation) ?st) \<le> 5"
    by (rule Suc.IH)
  have "build_loop (replicate (Suc n) full_conversation) st
      = build_loop (replicate n full_conversation) ?st"
    using Suc.prems(3) len by (simp add: Let_def)
  with ih len show ?case by simp
qed

lemma fifty_full:
  "current_length (build_loop (replicate 50 full_conversation) (initial_state ''bob'')) = 31700
   \<and> 1 \<le> user_counter (build_loop (replicate 50 full_conversation) (initial_state ''bob''))
   \<and> user_counter (build_loop (replicate 50 full_conversation) (initial_state ''bob'')) \<le> 5"
  using build_loop_full [of "initial_state ''bob''" 50]
  by (simp add: initial_state_def length_intro max_definition_length_def)

text \<open>
  An instance of C4: after fifty conversations of 632 rendered characters for the user
  \<open>bob\<close> the running total is 31700; one more of them would overflow, the short example
  conversation after it would fit, and it is not appended.
\<close>

theorem stop_at_first_overflow_witness:
  "max_definition_length <
     current_length (build_loop (replicate 50 full_conversation) (initial_state ''bob''))
       + length (format_for_character_ai full_conversation
           (user_placeholder_of
             (user_counter (build_loop (replicate 50 full_conversation) (initial_state ''bob'')))))
   \<and> current_length (build_loop (replicate 50 full_conversation) (initial_state ''bob''))
       + length (format_for_character_ai example_conversation
           (user_placeholder_of
             (user_counter (build_loop (replicate 50 full_conversation) (initial_state ''bob'')))))
       \<le> max_definition_length
   \<and> build_definition (replicate 50 full_conversation @ full_conversation # [example_conversation])
         ''bob''
       = build_definition (replicate 50 full_conversation) ''bob''"
proof -
  let ?st = "build_loop (replicate 50 full_conversation) (initial_state ''bob'')"
  from fifty_full have cl: "current_length ?st = 31700"
    and c1: "1 \<le> user_counter ?st" and c5: "user_counter ?st \<le> 5" by simp_all
  have f: "length (format_for_character_ai full_conversation
      (user_placeholder_of (user_counter ?st))) = 632"
    by (rule full_format_length [OF c1 c5])
  have e: "length (format_for_character_ai example_conversation
      (user_placeholder_of (user_counter ?st))) = 66"
    by (simp add: format_length user_placeholder_length [OF c1 c5] example_conversation_def
        clean_text_example_original clean_text_example_reply)
  have overflow: "max_definition_length < current_length ?st
      + length (format_for_character_ai full_conversation
          (user_placeholder_of (user_counter ?st)))"
    by (simp add: cl f max_definition_length_def)
  have fit: "current_length ?st
      + length (format_for_character_ai example_conversation
          (user_placeholder_of (user_counter ?st))) \<le> max_definition_length"
    by (simp add: cl e max_definition_length_def)
  from stop_at_first_overflow [OF overflow, of "[example_conversation]"] overflow fit
  show ?thesis by simp
qed

end
